theory Spec2Isabelle
  imports Main "HOL-Library.Sublist"
begin

section \<open>JSON values and Python's view of them\<close>

text \<open>
  The translator of \<^verbatim>\<open>outlines/text/json_schema.py\<close> walks the value that
  \<^verbatim>\<open>json.loads\<close> returns. A \<^verbatim>\<open>dict\<close> keeps its insertion order, so an object
  is an association list (Python dictionaries have distinct keys). Strings are lists
  of 8-bit characters: code points from 256 on are outside the model, and so are
  non-integer numbers (Python floats).
\<close>

datatype json =
    JNull
  | JBool bool
  | JInt int
  | JStr string
  | JArr "json list"
  | JObj "(string \<times> json) list"

text \<open>
  The exceptions that can leave \<^verbatim>\<open>to_regex\<close>. \<open>Unresolvable\<close> is what the resolver
  of the \<^verbatim>\<open>referencing\<close> package raises for a reference it cannot find;
  \<open>NotImplementedError\<close> carries the instance that its message names;
  \<open>RecursionError\<close> is Python's answer to a recursion deeper than the interpreter allows.
\<close>

datatype error =
    KeyError
  | TypeError
  | AttributeError
  | IndexError
  | ValueError
  | Unresolvable string
  | NotImplementedError json
  | RecursionError

type_synonym resolver = "string \<Rightarrow> json option"

abbreviation BS :: char where "BS \<equiv> CHR 0x5C"

definition rbind :: "error + 'a \<Rightarrow> ('a \<Rightarrow> error + 'b) \<Rightarrow> error + 'b" where
  "rbind m f = (case m of Inl e \<Rightarrow> Inl e | Inr x \<Rightarrow> f x)"

fun mapM :: "('a \<Rightarrow> error + 'b) \<Rightarrow> 'a list \<Rightarrow> error + 'b list" where
  "mapM f [] = Inr []"
| "mapM f (x # xs) =
     (case f x of
        Inl e \<Rightarrow> Inl e
      | Inr y \<Rightarrow> (case mapM f xs of Inl e \<Rightarrow> Inl e | Inr ys \<Rightarrow> Inr (y # ys)))"

fun join :: "'a list \<Rightarrow> 'a list list \<Rightarrow> 'a list" where
  "join sep [] = []"
| "join sep [x] = x"
| "join sep (x # y # ys) = x @ sep @ join sep (y # ys)"

subsection \<open>Membership, subscripts and iteration\<close>

fun is_substr :: "string \<Rightarrow> string \<Rightarrow> bool" where
  "is_substr k [] = (k = [])"
| "is_substr k (c # cs) = (prefix k (c # cs) \<or> is_substr k cs)"

text \<open>\<^verbatim>\<open>key in instance\<close>, for a key that is a string.\<close>

fun py_contains :: "string \<Rightarrow> json \<Rightarrow> error + bool" where
  "py_contains k (JObj kvs) = Inr (k \<in> set (map fst kvs))"
| "py_contains k (JStr s) = Inr (is_substr k s)"
| "py_contains k (JArr xs) = Inr (JStr k \<in> set xs)"
| "py_contains k _ = Inl TypeError"

text \<open>\<^verbatim>\<open>instance[key]\<close>, for a key that is a string.\<close>

fun py_getitem :: "json \<Rightarrow> string \<Rightarrow> error + json" where
  "py_getitem (JObj kvs) k = (case map_of kvs k of None \<Rightarrow> Inl KeyError | Some v \<Rightarrow> Inr v)"
| "py_getitem _ k = Inl TypeError"

text \<open>\<^verbatim>\<open>instance.get(key, default)\<close>.\<close>

fun py_get :: "json \<Rightarrow> string \<Rightarrow> json \<Rightarrow> error + json" where
  "py_get (JObj kvs) k d = (case map_of kvs k of None \<Rightarrow> Inr d | Some v \<Rightarrow> Inr v)"
| "py_get _ k d = Inl AttributeError"

text \<open>\<^verbatim>\<open>value.items()\<close>.\<close>

fun py_items :: "json \<Rightarrow> error + (string \<times> json) list" where
  "py_items (JObj kvs) = Inr kvs"
| "py_items _ = Inl AttributeError"

text \<open>\<^verbatim>\<open>for t in value\<close>: a list gives its elements, a dictionary its keys, a string
  its characters.\<close>

fun py_iter :: "json \<Rightarrow> error + json list" where
  "py_iter (JArr xs) = Inr xs"
| "py_iter (JObj kvs) = Inr (map (\<lambda>kv. JStr (fst kv)) kvs)"
| "py_iter (JStr s) = Inr (map (\<lambda>c. JStr [c]) s)"
| "py_iter _ = Inl TypeError"

text \<open>\<^verbatim>\<open>pattern[0]\<close> and \<^verbatim>\<open>pattern[-1]\<close> and the slice \<^verbatim>\<open>pattern[1:-1]\<close>.\<close>

fun py_first :: "json \<Rightarrow> error + json" where
  "py_first (JStr s) = (case s of [] \<Rightarrow> Inl IndexError | c # _ \<Rightarrow> Inr (JStr [c]))"
| "py_first (JArr xs) = (case xs of [] \<Rightarrow> Inl IndexError | x # _ \<Rightarrow> Inr x)"
| "py_first (JObj kvs) = Inl KeyError"
| "py_first _ = Inl TypeError"

fun py_last :: "json \<Rightarrow> error + json" where
  "py_last (JStr s) = (if s = [] then Inl IndexError else Inr (JStr [last s]))"
| "py_last (JArr xs) = (if xs = [] then Inl IndexError else Inr (last xs))"
| "py_last (JObj kvs) = Inl KeyError"
| "py_last _ = Inl TypeError"

fun py_inner :: "json \<Rightarrow> error + json" where
  "py_inner (JStr s) = Inr (JStr (butlast (tl s)))"
| "py_inner (JArr xs) = Inr (JArr (butlast (tl xs)))"
| "py_inner _ = Inl TypeError"

subsection \<open>\<^verbatim>\<open>str\<close>, \<^verbatim>\<open>repr\<close>, \<^verbatim>\<open>int\<close> and \<^verbatim>\<open>re.escape\<close>\<close>

definition digit_char :: "nat \<Rightarrow> char" where
  "digit_char d = char_of (48 + d)"

fun str_nat :: "nat \<Rightarrow> string" where
  "str_nat n = (if n < 10 then [digit_char n] else str_nat (n div 10) @ [digit_char (n mod 10)])"

declare str_nat.simps [simp del]

definition str_int :: "int \<Rightarrow> string" where
  "str_int i = (if i < 0 then CHR ''-'' # str_nat (nat (- i)) else str_nat (nat i))"

definition hex_char :: "nat \<Rightarrow> char" where
  "hex_char d = (if d < 10 then char_of (48 + d) else char_of (87 + d))"

text \<open>The characters below 256 that \<^verbatim>\<open>repr\<close> prints as they are.\<close>

definition printable :: "char \<Rightarrow> bool" where
  "printable c = (let n = (of_char c :: nat) in
     (32 \<le> n \<and> n < 127) \<or> (161 \<le> n \<and> n \<noteq> 173))"

definition repr_char :: "char \<Rightarrow> char \<Rightarrow> string" where
  "repr_char q c =
     (if c = q \<or> c = BS then [BS, c]
      else if c = CHR 0x09 then [BS, CHR ''t'']
      else if c = CHR 0x0A then [BS, CHR ''n'']
      else if c = CHR 0x0D then [BS, CHR ''r'']
      else if printable c then [c]
      else [BS, CHR ''x'', hex_char (of_char c div 16), hex_char (of_char c mod 16)])"

definition repr_str :: "string \<Rightarrow> string" where
  "repr_str s =
     (let q = (if CHR 0x27 \<in> set s \<and> CHR 0x22 \<notin> set s then CHR 0x22 else CHR 0x27)
      in q # concat (map (repr_char q) s) @ [q])"

fun py_repr :: "json \<Rightarrow> string" where
  "py_repr JNull = ''None''"
| "py_repr (JBool b) = (if b then ''True'' else ''False'')"
| "py_repr (JInt i) = str_int i"
| "py_repr (JStr s) = repr_str s"
| "py_repr (JArr xs) = ''['' @ join '', '' (map py_repr xs) @ '']''"
| "py_repr (JObj kvs) =
     ''{'' @ join '', '' (map (\<lambda>kv. repr_str (fst kv) @ '': '' @ py_repr (snd kv)) kvs) @ ''}''"

text \<open>\<^verbatim>\<open>str(value)\<close>, which is also what an f-string field \<^verbatim>\<open>{value}\<close> gives.\<close>

fun py_str :: "json \<Rightarrow> string" where
  "py_str (JStr s) = s"
| "py_str v = py_repr v"

text \<open>
  \<^verbatim>\<open>int(value)\<close>. A string is stripped of surrounding white space, may carry a sign,
  and is a run of decimal digits in which single underscores may separate digits;
  anything else is a \<open>ValueError\<close>. (The interpreter's optional cap on the number of
  digits is not modelled.)
\<close>

definition is_space :: "char \<Rightarrow> bool" where
  "is_space c = (let n = (of_char c :: nat) in
     (9 \<le> n \<and> n \<le> 13) \<or> (28 \<le> n \<and> n \<le> 32) \<or> n = 133 \<or> n = 160)"

definition is_digit :: "char \<Rightarrow> bool" where
  "is_digit c = (let n = (of_char c :: nat) in 48 \<le> n \<and> n \<le> 57)"

definition strip :: "string \<Rightarrow> string" where
  "strip s = rev (dropWhile is_space (rev (dropWhile is_space s)))"

fun no_double_underscore :: "string \<Rightarrow> bool" where
  "no_double_underscore (a # b # cs) =
     (\<not> (a = CHR ''_'' \<and> b = CHR ''_'') \<and> no_double_underscore (b # cs))"
| "no_double_underscore _ = True"

definition digits_value :: "string \<Rightarrow> nat" where
  "digits_value ds = foldl (\<lambda>acc c. 10 * acc + (of_char c - 48)) 0 (filter is_digit ds)"

definition int_of_str :: "string \<Rightarrow> error + int" where
  "int_of_str s =
     (let t = strip s;
          neg = (t \<noteq> [] \<and> hd t = CHR ''-'');
          body = (if t \<noteq> [] \<and> (hd t = CHR ''-'' \<or> hd t = CHR ''+'') then tl t else t)
      in if body \<noteq> [] \<and> is_digit (hd body) \<and> is_digit (last body)
            \<and> list_all (\<lambda>c. is_digit c \<or> c = CHR ''_'') body \<and> no_double_underscore body
         then Inr (if neg then - int (digits_value body) else int (digits_value body))
         else Inl ValueError)"

fun py_int :: "json \<Rightarrow> error + int" where
  "py_int (JInt i) = Inr i"
| "py_int (JBool b) = Inr (if b then 1 else 0)"
| "py_int (JStr s) = int_of_str s"
| "py_int _ = Inl TypeError"

text \<open>\<^verbatim>\<open>re.escape\<close> puts a backslash before each character that is special in a
  pattern and leaves the others alone.\<close>

definition re_special :: "char \<Rightarrow> bool" where
  \<open>re_special c = (c \<in> set (''()[]{}?*+-|^$.&~# '' @ [BS, CHR 0x09, CHR 0x0A, CHR 0x0D, CHR 0x0B, CHR 0x0C]))\<close>

definition re_escape :: "string \<Rightarrow> string" where
  "re_escape s = concat (map (\<lambda>c. if re_special c then [BS, c] else [c]) s)"

text \<open>In the branch for string enumerations \<^verbatim>\<open>re.escape\<close> receives the member itself,
  and rejects what is not a string.\<close>

fun re_escape_json :: "json \<Rightarrow> error + string" where
  "re_escape_json (JStr s) = Inr (re_escape s)"
| "re_escape_json _ = Inl TypeError"

section \<open>The translator\<close>

subsection \<open>The fragments of the primitive types\<close>

definition STRING_INNER :: string where
  \<open>STRING_INNER = ''(?:[^"'' @ [BS, BS, BS] @ ''x00-'' @ [BS] @ ''x1f'' @ [BS] @ ''x7f-''
     @ [BS] @ ''x9f]|'' @ [BS, BS] @ ''.)''\<close>

definition STRING :: string where
  \<open>STRING = ''"'' @ STRING_INNER @ ''*"''\<close>

definition INTEGER :: string where
  "INTEGER = ''(0|[1-9][0-9]*)''"

definition NUMBER :: string where
  "NUMBER = ''(-)?('' @ INTEGER @ '')('' @ [BS] @ ''.[0-9]+)?([eE][+-][0-9]+)?''"

definition BOOLEAN :: string where
  "BOOLEAN = ''(true|false)''"

definition NULL :: string where
  "NULL = ''null''"

fun type_to_regex :: "string \<Rightarrow> string" where
  "type_to_regex t =
     (if t = ''string'' then STRING
      else if t = ''integer'' then INTEGER
      else if t = ''number'' then NUMBER
      else if t = ''boolean'' then BOOLEAN
      else NULL)"

subsection \<open>\<^verbatim>\<open>itertools.permutations\<close>\<close>

text \<open>
  \<^verbatim>\<open>permutations(xs, r)\<close> lists the arrangements of \<open>r\<close> positions of \<open>xs\<close>, in the
  lexicographic order of the positions: the first element is picked from left to
  right, and the arrangement goes on with the elements that are left, in their order.
\<close>

fun picks :: "'a list \<Rightarrow> ('a \<times> 'a list) list" where
  "picks [] = []"
| "picks (x # xs) = (x, xs) # map (\<lambda>p. (fst p, x # snd p)) (picks xs)"

fun permutations :: "'a list \<Rightarrow> nat \<Rightarrow> 'a list list" where
  "permutations xs 0 = [[]]"
| "permutations xs (Suc r) =
     concat (map (\<lambda>p. map ((#) (fst p)) (permutations (snd p) r)) (picks xs))"

subsection \<open>\<^verbatim>\<open>to_regex\<close>\<close>

definition whitespace :: string where
  \<open>whitespace = ''['' @ [BS] @ ''n ]*''\<close>

text \<open>The loop over \<^verbatim>\<open>enumerate(instance["properties"].items())\<close>: \<open>f\<close> is the recursive
  call, \<open>len\<close> the number of properties, \<open>i\<close> the index, \<open>regex\<close> the text built so far.\<close>

fun properties_loop ::
  "(json \<Rightarrow> error + string) \<Rightarrow> nat \<Rightarrow> nat \<Rightarrow> (string \<times> json) list \<Rightarrow> string \<Rightarrow> error + string"
where
  "properties_loop f len i [] regex = Inr regex"
| \<open>properties_loop f len i (nv # rest) regex =
     (case f (snd nv) of
        Inl e \<Rightarrow> Inl e
      | Inr r \<Rightarrow>
          properties_loop f len (Suc i) rest
            (regex @ whitespace @ ''"'' @ fst nv @ ''"'' @ whitespace @ '':'' @ whitespace @ r
               @ (if int i < int len - 1 then whitespace @ '','' else [])))\<close>

text \<open>The five nodes that stand for the items of an array without \<^verbatim>\<open>items\<close>.\<close>

definition array_types :: "json list" where
  "array_types =
     [JObj [(''type'', JStr ''boolean'')], JObj [(''type'', JStr ''null'')],
      JObj [(''type'', JStr ''number'')], JObj [(''type'', JStr ''integer'')],
      JObj [(''type'', JStr ''string'')]]"

text \<open>
  The length bounds of a string: the comparison sits in a \<^verbatim>\<open>try\<close> whose handler
  catches \<open>ValueError\<close>, the one that \<^verbatim>\<open>int\<close> raises as well as the one raised for
  \<^verbatim>\<open>maxLength < minLength\<close>, and passes. Any other exception leaves the function.
\<close>

definition except_ValueError_pass :: "error + unit \<Rightarrow> error + unit" where
  "except_ValueError_pass body =
     (case body of Inl e \<Rightarrow> if e = ValueError then Inr () else Inl e | Inr u \<Rightarrow> Inr u)"

definition check_lengths :: "json \<Rightarrow> json \<Rightarrow> error + unit" where
  "check_lengths max_length min_length =
     except_ValueError_pass
       (rbind (py_int max_length) (\<lambda>a.
        rbind (py_int min_length) (\<lambda>b.
        if a < b then Inl ValueError else Inr ())))"

text \<open>
  \<^verbatim>\<open>to_regex(resolver, instance)\<close>. The first argument bounds the depth of the
  recursion: a chain of references may never end, and Python then stops with a
  \<open>RecursionError\<close>. The resolver is the lookup \<^verbatim>\<open>resolver.lookup(path).contents\<close>.
\<close>

fun to_regex :: "nat \<Rightarrow> resolver \<Rightarrow> json \<Rightarrow> error + string" where
  "to_regex 0 resolver instance = Inl RecursionError"
| \<open>to_regex (Suc n) resolver instance =
   rbind (py_contains ''properties'' instance) (\<lambda>has_properties.
   if has_properties then
     rbind (py_getitem instance ''properties'') (\<lambda>props.
     rbind (py_items props) (\<lambda>items.
     rbind (properties_loop (to_regex n resolver) (length items) 0 items ([BS] @ ''{'')) (\<lambda>regex.
     Inr (regex @ whitespace @ [BS] @ ''}''))))
   else
   rbind (py_contains ''allOf'' instance) (\<lambda>has_allOf.
   if has_allOf then
     rbind (py_getitem instance ''allOf'') (\<lambda>ts.
     rbind (py_iter ts) (\<lambda>ts.
     rbind (mapM (to_regex n resolver) ts) (\<lambda>subregexes.
     Inr (''('' @ concat subregexes @ '')''))))
   else
   rbind (py_contains ''anyOf'' instance) (\<lambda>has_anyOf.
   if has_anyOf then
     rbind (py_getitem instance ''anyOf'') (\<lambda>ts.
     rbind (py_iter ts) (\<lambda>ts.
     rbind (mapM (to_regex n resolver) ts) (\<lambda>subregexes.
     let combinations =
           concat (map (\<lambda>r. map (\<lambda>c. ''('' @ concat c @ '')'') (permutations subregexes r))
                       [1 ..< length subregexes + 1])
     in Inr (''('' @ join ''|'' combinations @ '')''))))
   else
   rbind (py_contains ''oneOf'' instance) (\<lambda>has_oneOf.
   if has_oneOf then
     rbind (py_getitem instance ''oneOf'') (\<lambda>ts.
     rbind (py_iter ts) (\<lambda>ts.
     rbind (mapM (to_regex n resolver) ts) (\<lambda>subregexes.
     Inr (''('' @ join ''|'' subregexes @ '')''))))
   else
   rbind (py_contains ''enum'' instance) (\<lambda>has_enum.
   if has_enum then
     rbind (py_getitem instance ''type'') (\<lambda>type.
     if type = JStr ''string'' then
       rbind (py_getitem instance ''enum'') (\<lambda>enum.
       rbind (py_iter enum) (\<lambda>enum.
       rbind (mapM (\<lambda>choice. rbind (re_escape_json choice) (\<lambda>e. Inr (''"'' @ e @ ''"''))) enum)
         (\<lambda>choices.
       Inr (''('' @ join ''|'' choices @ '')''))))
     else
       rbind (py_getitem instance ''enum'') (\<lambda>enum.
       rbind (py_iter enum) (\<lambda>enum.
       Inr (''('' @ join ''|'' (map (\<lambda>choice. re_escape (py_str choice)) enum) @ '')''))))
   else
   rbind (py_contains ''$ref'' instance) (\<lambda>has_ref.
   if has_ref then
     rbind (py_getitem instance ''$ref'') (\<lambda>ref.
     let path = py_str ref in
     (case resolver path of
        None \<Rightarrow> Inl (Unresolvable path)
      | Some contents \<Rightarrow> to_regex n resolver contents))
   else
   rbind (py_contains ''type'' instance) (\<lambda>has_type.
   if has_type then
     rbind (py_getitem instance ''type'') (\<lambda>type.
     if type = JStr ''string'' then
       rbind (py_contains ''maxLength'' instance) (\<lambda>has_max.
       rbind (if has_max then Inr True else py_contains ''minLength'' instance) (\<lambda>has_bound.
       if has_bound then
         rbind (py_get instance ''maxLength'' (JStr [])) (\<lambda>max_length.
         rbind (py_get instance ''minLength'' (JStr [])) (\<lambda>min_length.
         rbind (check_lengths max_length min_length) (\<lambda>_.
         Inr (''"'' @ STRING_INNER @ ''{'' @ py_str min_length @ '','' @ py_str max_length
                @ ''}"''))))
       else
       rbind (py_contains ''pattern'' instance) (\<lambda>has_pattern.
       if has_pattern then
         rbind (py_getitem instance ''pattern'') (\<lambda>pattern.
         rbind (py_first pattern) (\<lambda>first.
         rbind (if first = JStr ''^'' then rbind (py_last pattern) (\<lambda>l. Inr (l = JStr ''$''))
                else Inr False) (\<lambda>anchored.
         if anchored then
           rbind (py_inner pattern) (\<lambda>inner. Inr (''(^"'' @ py_str inner @ ''"$)''))
         else Inr (''("'' @ py_str pattern @ ''")''))))
       else Inr (type_to_regex ''string''))))
     else if type = JStr ''number'' then Inr (type_to_regex ''number'')
     else if type = JStr ''integer'' then Inr (type_to_regex ''integer'')
     else if type = JStr ''array'' then
       rbind (py_contains ''items'' instance) (\<lambda>has_items.
       if has_items then
         rbind (py_getitem instance ''items'') (\<lambda>items.
         rbind (to_regex n resolver items) (\<lambda>items_regex.
         Inr ([BS] @ ''[('' @ items_regex @ '')(,('' @ items_regex @ ''))*'' @ [BS] @ '']'')))
       else
         rbind (mapM (to_regex n resolver) array_types) (\<lambda>regexes.
         Inr ([BS] @ ''[('' @ join ''|'' regexes @ '')(,('' @ join ''|'' regexes @ ''))*''
                @ [BS] @ '']'')))
     else if type = JStr ''boolean'' then Inr (type_to_regex ''boolean'')
     else if type = JStr ''null'' then Inr (type_to_regex ''null'')
     else (case type of
        JArr ts \<Rightarrow>
          rbind (mapM (\<lambda>t. to_regex n resolver (JObj [(''type'', t)]))
                      (filter (\<lambda>t. t \<noteq> JStr ''object'') ts)) (\<lambda>regexes.
          Inr (''('' @ join ''|'' regexes @ '')''))
      | _ \<Rightarrow> Inl (NotImplementedError instance)))
   else Inl (NotImplementedError instance))))))))\<close>

declare to_regex.simps [simp del]

section \<open>Regular expressions, as \<^verbatim>\<open>re\<close> reads them\<close>

text \<open>
  The translator only builds the text of a pattern; what the pattern accepts is decided
  by Python's \<^verbatim>\<open>re\<close> module. This section models the part of that module the
  emitted fragments use: literals, escapes, character classes, the dot, plain and
  non-capturing groups, alternation and the quantifiers. An atom \<open>Atom neg rs\<close>
  accepts one character whose code lies in one of the ranges \<open>rs\<close> (or, with \<open>neg\<close>,
  in none of them).
\<close>

datatype rexp =
    Zero
  | One
  | Atom bool "(nat \<times> nat) list"
  | Alt rexp rexp
  | Seq rexp rexp
  | Star rexp

definition in_ranges :: "(nat \<times> nat) list \<Rightarrow> char \<Rightarrow> bool" where
  "in_ranges rs c = list_ex (\<lambda>r. fst r \<le> of_char c \<and> of_char c \<le> snd r) rs"

definition atom_ok :: "bool \<Rightarrow> (nat \<times> nat) list \<Rightarrow> char \<Rightarrow> bool" where
  "atom_ok neg rs c = (in_ranges rs c \<noteq> neg)"

definition conc :: "string set \<Rightarrow> string set \<Rightarrow> string set" where
  "conc A B = {u @ v | u v. u \<in> A \<and> v \<in> B}"

inductive_set star :: "string set \<Rightarrow> string set" for A :: "string set" where
  star_empty: "[] \<in> star A"
| star_step: "u \<in> A \<Longrightarrow> v \<in> star A \<Longrightarrow> u @ v \<in> star A"

fun lang :: "rexp \<Rightarrow> string set" where
  "lang Zero = {}"
| "lang One = {[]}"
| "lang (Atom neg rs) = {[c] | c. atom_ok neg rs c}"
| "lang (Alt r s) = lang r \<union> lang s"
| "lang (Seq r s) = conc (lang r) (lang s)"
| "lang (Star r) = star (lang r)"

fun nullable :: "rexp \<Rightarrow> bool" where
  "nullable Zero = False"
| "nullable One = True"
| "nullable (Atom neg rs) = False"
| "nullable (Alt r s) = (nullable r \<or> nullable s)"
| "nullable (Seq r s) = (nullable r \<and> nullable s)"
| "nullable (Star r) = True"

fun alt :: "rexp \<Rightarrow> rexp \<Rightarrow> rexp" where
  "alt Zero s = s"
| "alt r Zero = r"
| "alt r s = Alt r s"

fun seq :: "rexp \<Rightarrow> rexp \<Rightarrow> rexp" where
  "seq Zero s = Zero"
| "seq r Zero = Zero"
| "seq One s = s"
| "seq r s = Seq r s"

fun deriv :: "char \<Rightarrow> rexp \<Rightarrow> rexp" where
  "deriv c Zero = Zero"
| "deriv c One = Zero"
| "deriv c (Atom neg rs) = (if atom_ok neg rs c then One else Zero)"
| "deriv c (Alt r s) = alt (deriv c r) (deriv c s)"
| "deriv c (Seq r s) =
     (if nullable r then alt (seq (deriv c r) s) (deriv c s) else seq (deriv c r) s)"
| "deriv c (Star r) = seq (deriv c r) (Star r)"

fun matches :: "rexp \<Rightarrow> string \<Rightarrow> bool" where
  "matches r [] = nullable r"
| "matches r (c # cs) = matches (deriv c r) cs"

subsection \<open>Reading a pattern\<close>

datatype token = TAtom bool "(nat \<times> nat) list" | TOpen | TClose | TBar | TQuant nat "nat option"

definition hex_val :: "char \<Rightarrow> nat option" where
  "hex_val c = (let n = (of_char c :: nat) in
     if 48 \<le> n \<and> n \<le> 57 then Some (n - 48)
     else if 97 \<le> n \<and> n \<le> 102 then Some (n - 87)
     else if 65 \<le> n \<and> n \<le> 70 then Some (n - 55)
     else None)"

definition is_alnum :: "char \<Rightarrow> bool" where
  "is_alnum c = (let n = (of_char c :: nat) in
     (48 \<le> n \<and> n \<le> 57) \<or> (65 \<le> n \<and> n \<le> 90) \<or> (97 \<le> n \<and> n \<le> 122))"

fun class_atom :: "string \<Rightarrow> (nat \<times> string) option" where
  "class_atom [] = None"
| "class_atom (c # cs) =
     (if c = BS then
        (case cs of
           [] \<Rightarrow> None
         | e # r \<Rightarrow>
             if e = CHR ''x'' then
               (case r of
                  a # b # r' \<Rightarrow>
                    (case (hex_val a, hex_val b) of
                       (Some h, Some l) \<Rightarrow> Some (16 * h + l, r')
                     | _ \<Rightarrow> None)
                | _ \<Rightarrow> None)
             else if e = CHR ''n'' then Some (10, r)
             else if e = CHR ''t'' then Some (9, r)
             else if e = CHR ''r'' then Some (13, r)
             else if is_alnum e then None
             else Some (of_char e, r))
      else Some (of_char c, cs))"

lemma class_atom_shorter: "class_atom cs = Some (n, r) \<Longrightarrow> length r < length cs"
  by (cases cs) (auto split: if_splits list.splits option.splits)

function class_items :: "string \<Rightarrow> ((nat \<times> nat) list \<times> string) option" where
  "class_items cs =
     (if cs = [] then None
      else if hd cs = CHR '']'' then Some ([], tl cs)
      else
        (case class_atom cs of
           None \<Rightarrow> None
         | Some (lo, r1) \<Rightarrow>
             if r1 \<noteq> [] \<and> hd r1 = CHR ''-'' \<and> tl r1 \<noteq> [] \<and> hd (tl r1) \<noteq> CHR '']'' then
               (case class_atom (tl r1) of
                  None \<Rightarrow> None
                | Some (hi, r2) \<Rightarrow>
                    if hi < lo then None
                    else map_option (\<lambda>p. ((lo, hi) # fst p, snd p)) (class_items r2))
             else map_option (\<lambda>p. ((lo, lo) # fst p, snd p)) (class_items r1)))"
  by pat_completeness auto
termination
proof (relation "measure length")
  show "wf (measure length)" by simp
next
  fix cs :: string and x2 x y x2a xa ya
  assume "class_atom cs = Some x2" "(x, y) = x2" "class_atom (tl y) = Some x2a" "(xa, ya) = x2a"
    "y \<noteq> [] \<and> hd y = CHR ''-'' \<and> tl y \<noteq> [] \<and> hd (tl y) \<noteq> CHR '']''"
  then have "length y < length cs" "length ya < length (tl y)"
    using class_atom_shorter by metis+
  then show "(ya, cs) \<in> measure length" by simp
next
  fix cs :: string and x2 x y
  assume "class_atom cs = Some x2" "(x, y) = x2"
  then have "length y < length cs" using class_atom_shorter by metis
  then show "(y, cs) \<in> measure length" by simp
qed

declare class_items.simps [simp del]

lemma class_items_shorter: "class_items cs = Some (rs, r) \<Longrightarrow> length r < length cs"
proof (induction cs arbitrary: rs r rule: class_items.induct)
  case (1 cs)
  note eq = "1.prems" [unfolded class_items.simps [of cs]]
  show ?case
  proof (cases "cs = [] \<or> hd cs = CHR '']''")
    case True
    with eq show ?thesis
      by (cases cs) (auto split: if_splits)
  next
    case False
    then have ne: "cs \<noteq> []" and nb: "hd cs \<noteq> CHR '']''" by auto
    from eq ne nb obtain lo r1 where a: "class_atom cs = Some (lo, r1)"
      by (auto split: option.splits)
    have l1: "length r1 < length cs" using a by (rule class_atom_shorter)
    show ?thesis
    proof (cases "r1 \<noteq> [] \<and> hd r1 = CHR ''-'' \<and> tl r1 \<noteq> [] \<and> hd (tl r1) \<noteq> CHR '']''")
      case True
      with eq ne nb a obtain hi r2 where b: "class_atom (tl r1) = Some (hi, r2)"
        by (auto split: option.splits)
      have l2: "length r2 < length (tl r1)" using b by (rule class_atom_shorter)
      from eq ne nb a True b obtain p where p: "class_items r2 = Some p" "r = snd p"
        by (auto split: if_splits)
      have "length (snd p) < length r2"
        by (rule "1.IH"(1) [OF ne nb a refl True b refl _, of "fst p"]) (use eq ne nb a True b p in \<open>auto split: if_splits\<close>)
      with l1 l2 p show ?thesis by simp
    next
      case n: False
      from eq ne nb a n obtain p where p: "class_items r1 = Some p" "r = snd p"
        by (auto split: if_splits)
      have "length (snd p) < length r1"
        by (rule "1.IH"(2) [OF ne nb a refl n, of "fst p"]) (use p in auto)
      with l1 p show ?thesis by simp
    qed
  qed
qed

text \<open>A quantifier in braces, read after the opening brace.\<close>

definition read_quant :: "string \<Rightarrow> (nat \<times> nat option \<times> string) option" where
  "read_quant cs =
     (let lo = takeWhile is_digit cs;
          r1 = dropWhile is_digit cs;
          comma = (r1 \<noteq> [] \<and> hd r1 = CHR '','');
          hi = (if comma then takeWhile is_digit (tl r1) else lo);
          r2 = (if comma then dropWhile is_digit (tl r1) else r1)
      in if cs \<noteq> [] \<and> hd cs \<noteq> CHR ''}'' \<and> r2 \<noteq> [] \<and> hd r2 = CHR ''}''
         then Some (if lo = [] then 0 else digits_value lo,
                    if hi = [] then None else Some (digits_value hi), tl r2)
         else None)"

lemma read_quant_shorter: "read_quant cs = Some (m, n, r) \<Longrightarrow> length r < length cs"
proof -
  assume a: "read_quant cs = Some (m, n, r)"
  have d: "length (dropWhile is_digit xs) \<le> length xs" for xs
    by (rule length_dropWhile_le)
  have t: "xs \<noteq> [] \<Longrightarrow> length (tl xs) < length xs" for xs :: string
    by (cases xs) auto
  show ?thesis
  proof (cases "dropWhile is_digit cs \<noteq> [] \<and> hd (dropWhile is_digit cs) = CHR '',''")
    case True
    with a have r: "r = tl (dropWhile is_digit (tl (dropWhile is_digit cs)))"
      and ne: "dropWhile is_digit (tl (dropWhile is_digit cs)) \<noteq> []"
      by (auto simp: read_quant_def Let_def split: if_splits)
    have "length r < length (dropWhile is_digit (tl (dropWhile is_digit cs)))"
      unfolding r using ne by (rule t)
    also have "\<dots> \<le> length (tl (dropWhile is_digit cs))" by (rule d)
    also have "\<dots> \<le> length (dropWhile is_digit cs)" by simp
    also have "\<dots> \<le> length cs" by (rule d)
    finally show ?thesis .
  next
    case False
    with a have r: "r = tl (dropWhile is_digit cs)" and ne: "dropWhile is_digit cs \<noteq> []"
      by (auto simp: read_quant_def Let_def split: if_splits)
    have "length r < length (dropWhile is_digit cs)" unfolding r using ne by (rule t)
    also have "\<dots> \<le> length cs" by (rule d)
    finally show ?thesis .
  qed
qed

text \<open>
  The tokens of a pattern. \<open>None\<close> stands for a pattern that \<^verbatim>\<open>re.compile\<close> rejects
  and for the syntax outside the subset read here (anchors, other groups than plain
  and non-capturing ones, character-class escapes, back references).
\<close>

definition cons_tok :: "token \<Rightarrow> token list option \<Rightarrow> token list option" where
  "cons_tok t r = map_option ((#) t) r"

function tokenize :: "string \<Rightarrow> token list option" where
  "tokenize [] = Some []"
| "tokenize (c # r) =
     (if c = CHR ''('' then
        (if r \<noteq> [] \<and> hd r = CHR ''?'' then
           (if tl r \<noteq> [] \<and> hd (tl r) = CHR '':'' then cons_tok TOpen (tokenize (drop 2 r))
            else None)
         else cons_tok TOpen (tokenize r))
      else if c = CHR '')'' then cons_tok TClose (tokenize r)
      else if c = CHR ''|'' then cons_tok TBar (tokenize r)
      else if c = CHR ''*'' then cons_tok (TQuant 0 None) (tokenize r)
      else if c = CHR ''+'' then cons_tok (TQuant 1 None) (tokenize r)
      else if c = CHR ''?'' then cons_tok (TQuant 0 (Some 1)) (tokenize r)
      else if c = CHR ''{'' then
        (case read_quant r of
           None \<Rightarrow> cons_tok (TAtom False [(of_char c, of_char c)]) (tokenize r)
         | Some (lo, hi, r') \<Rightarrow>
             if (case hi of None \<Rightarrow> False | Some h \<Rightarrow> h < lo) then None
             else cons_tok (TQuant lo hi) (tokenize r'))
      else if c = CHR ''['' then
        (case class_items (if r \<noteq> [] \<and> hd r = CHR ''^'' then tl r else r) of
           None \<Rightarrow> None
         | Some (rs, r') \<Rightarrow>
             if rs = [] then None
             else cons_tok (TAtom (r \<noteq> [] \<and> hd r = CHR ''^'') rs) (tokenize r'))
      else if c = CHR ''.'' then cons_tok (TAtom True [(10, 10)]) (tokenize r)
      else if c = CHR ''^'' \<or> c = CHR ''$'' then None
      else if c = BS then
        (case class_atom (c # r) of
           None \<Rightarrow> None
         | Some (n, r') \<Rightarrow> cons_tok (TAtom False [(n, n)]) (tokenize r'))
      else cons_tok (TAtom False [(of_char c, of_char c)]) (tokenize r))"
  by pat_completeness auto
termination
proof (relation "measure length", goal_cases)
  case 1
  show ?case by simp
next
  case (10 c r x2 x y xa ya)
  then have "length ya < length r" using read_quant_shorter [of r x xa ya] by simp
  then show ?case by simp
next
  case (11 c r x2 x y)
  then have "length y < length (if r \<noteq> [] \<and> hd r = CHR ''^'' then tl r else r)"
    using class_items_shorter [of _ x y] by metis
  also have "\<dots> \<le> length r" by simp
  finally show ?case by simp
next
  case (13 c r x2 x y)
  then have "length y < length (c # r)" using class_atom_shorter [of "c # r" x y] by simp
  then show ?case by simp
qed simp_all

declare tokenize.simps [simp del]

subsection \<open>From tokens to an expression\<close>

fun mk_seq :: "rexp list \<Rightarrow> rexp" where
  "mk_seq [] = One"
| "mk_seq [r] = r"
| "mk_seq (r # rs) = Seq r (mk_seq rs)"

fun mk_alt :: "rexp list \<Rightarrow> rexp" where
  "mk_alt [] = Zero"
| "mk_alt [r] = r"
| "mk_alt (r # rs) = Alt r (mk_alt rs)"

fun rep_exact :: "rexp \<Rightarrow> nat \<Rightarrow> rexp \<Rightarrow> rexp" where
  "rep_exact r 0 rest = rest"
| "rep_exact r (Suc k) rest = Seq r (rep_exact r k rest)"

fun rep_opt :: "rexp \<Rightarrow> nat \<Rightarrow> rexp" where
  "rep_opt r 0 = One"
| "rep_opt r (Suc k) = Alt One (Seq r (rep_opt r k))"

text \<open>\<open>quantify r m n\<close>: at least \<open>m\<close> and, with \<open>n = Some k\<close>, at most \<open>k\<close> copies of \<open>r\<close>.\<close>

definition quantify :: "rexp \<Rightarrow> nat \<Rightarrow> nat option \<Rightarrow> rexp" where
  "quantify r m n =
     (case n of None \<Rightarrow> rep_exact r m (Star r) | Some k \<Rightarrow> rep_exact r m (rep_opt r (k - m)))"

text \<open>A group under construction: its finished alternatives, and the items of the
  alternative being read.\<close>

type_synonym frame = "rexp list \<times> rexp list"

definition close_frame :: "frame \<Rightarrow> rexp" where
  "close_frame f = mk_alt (fst f @ [mk_seq (snd f)])"

definition add_item :: "rexp \<Rightarrow> frame \<Rightarrow> frame" where
  "add_item r f = (fst f, snd f @ [r])"

fun build :: "token list \<Rightarrow> frame \<Rightarrow> frame list \<Rightarrow> rexp option" where
  "build [] cur stk = (if stk = [] then Some (close_frame cur) else None)"
| "build (TAtom neg rs # TQuant m n # ts) cur stk =
     build ts (add_item (quantify (Atom neg rs) m n) cur) stk"
| "build (TAtom neg rs # ts) cur stk = build ts (add_item (Atom neg rs) cur) stk"
| "build (TOpen # ts) cur stk = build ts ([], []) (cur # stk)"
| "build (TClose # TQuant m n # ts) cur stk =
     (case stk of
        [] \<Rightarrow> None
      | p # stk' \<Rightarrow> build ts (add_item (quantify (close_frame cur) m n) p) stk')"
| "build (TClose # ts) cur stk =
     (case stk of [] \<Rightarrow> None | p # stk' \<Rightarrow> build ts (add_item (close_frame cur) p) stk')"
| "build (TBar # ts) cur stk = build ts (fst cur @ [mk_seq (snd cur)], []) stk"
| "build (TQuant m n # ts) cur stk = None"

definition re_compile :: "string \<Rightarrow> rexp option" where
  "re_compile p = (case tokenize p of None \<Rightarrow> None | Some ts \<Rightarrow> build ts ([], []) [])"

text \<open>\<^verbatim>\<open>re.fullmatch(pattern, text) is not None\<close>, for a pattern that compiles.\<close>

definition fullmatch :: "string \<Rightarrow> string \<Rightarrow> bool option" where
  "fullmatch p s = map_option (\<lambda>r. matches r s) (re_compile p)"

subsection \<open>The matcher decides the language\<close>

lemma conc_iff: "w \<in> conc A B \<longleftrightarrow> (\<exists>u v. w = u @ v \<and> u \<in> A \<and> v \<in> B)"
  by (auto simp: conc_def)

lemma concI: "u \<in> A \<Longrightarrow> v \<in> B \<Longrightarrow> u @ v \<in> conc A B"
  by (auto simp: conc_def)

lemma Nil_in_conc: "[] \<in> conc A B \<longleftrightarrow> [] \<in> A \<and> [] \<in> B"
  by (auto simp: conc_def)

lemma Cons_in_conc:
  "c # w \<in> conc A B \<longleftrightarrow>
     ([] \<in> A \<and> c # w \<in> B) \<or> (\<exists>u v. w = u @ v \<and> c # u \<in> A \<and> v \<in> B)"
proof
  assume "c # w \<in> conc A B"
  then obtain u v where uv: "c # w = u @ v" "u \<in> A" "v \<in> B"
    by (auto simp: conc_iff)
  show "([] \<in> A \<and> c # w \<in> B) \<or> (\<exists>u v. w = u @ v \<and> c # u \<in> A \<and> v \<in> B)"
  proof (cases u)
    case Nil
    with uv show ?thesis by simp
  next
    case (Cons a u')
    with uv have "w = u' @ v" "c # u' \<in> A" by auto
    with uv show ?thesis by blast
  qed
next
  assume "([] \<in> A \<and> c # w \<in> B) \<or> (\<exists>u v. w = u @ v \<and> c # u \<in> A \<and> v \<in> B)"
  then show "c # w \<in> conc A B"
  proof
    assume "[] \<in> A \<and> c # w \<in> B"
    then have "[] @ (c # w) \<in> conc A B" by (intro concI) auto
    then show ?thesis by simp
  next
    assume "\<exists>u v. w = u @ v \<and> c # u \<in> A \<and> v \<in> B"
    then obtain u v where "w = u @ v" "c # u \<in> A" "v \<in> B" by blast
    then show ?thesis using concI [of "c # u" A v B] by simp
  qed
qed

lemma Cons_in_star:
  "c # w \<in> star A \<longleftrightarrow> (\<exists>u v. w = u @ v \<and> c # u \<in> A \<and> v \<in> star A)"
proof
  assume "c # w \<in> star A"
  then show "\<exists>u v. w = u @ v \<and> c # u \<in> A \<and> v \<in> star A"
  proof (induction "c # w" rule: star.induct)
    case (star_step u v)
    show ?case
    proof (cases u)
      case Nil
      with star_step show ?thesis by simp
    next
      case (Cons a u')
      with star_step have "w = u' @ v" "c # u' \<in> A" by auto
      with star_step show ?thesis by blast
    qed
  qed
next
  assume "\<exists>u v. w = u @ v \<and> c # u \<in> A \<and> v \<in> star A"
  then obtain u v where "w = u @ v" "c # u \<in> A" "v \<in> star A" by blast
  then show "c # w \<in> star A" using star.star_step [of "c # u" A v] by simp
qed

lemma nullable_lang: "nullable r \<longleftrightarrow> [] \<in> lang r"
  by (induction r) (auto simp: Nil_in_conc intro: star.star_empty)

lemma lang_alt: "lang (alt r s) = lang r \<union> lang s"
  by (cases "(r, s)" rule: alt.cases) auto

lemma lang_seq: "lang (seq r s) = conc (lang r) (lang s)"
  by (cases "(r, s)" rule: seq.cases) (auto simp: conc_def)

lemma deriv_lang: "w \<in> lang (deriv c r) \<longleftrightarrow> c # w \<in> lang r"
proof (induction r arbitrary: w)
  case (Seq r s)
  have a: "w \<in> conc (lang (deriv c r)) (lang s)
             \<longleftrightarrow> (\<exists>u v. w = u @ v \<and> c # u \<in> lang r \<and> v \<in> lang s)"
    by (simp add: conc_iff Seq.IH)
  show ?case
    by (auto simp: lang_alt lang_seq a Seq.IH nullable_lang Cons_in_conc)
next
  case (Star r)
  have "w \<in> conc (lang (deriv c r)) (star (lang r))
          \<longleftrightarrow> (\<exists>u v. w = u @ v \<and> c # u \<in> lang r \<and> v \<in> star (lang r))"
    by (simp add: conc_iff Star.IH)
  then show ?case
    by (simp add: lang_seq Cons_in_star)
qed (auto simp: lang_alt)

lemma matches_lang: "matches r s \<longleftrightarrow> s \<in> lang r"
  by (induction s arbitrary: r) (auto simp: nullable_lang deriv_lang)

section \<open>The vocabulary of the claims\<close>

text \<open>The keywords that \<^verbatim>\<open>to_regex\<close> dispatches on, in the order of its tests.\<close>

definition dispatch_keys :: "string list" where
  "dispatch_keys = [''properties'', ''allOf'', ''anyOf'', ''oneOf'', ''enum'', ''$ref'', ''type'']"

definition keys_before :: "string \<Rightarrow> string list" where
  "keys_before k = takeWhile (\<lambda>x. x \<noteq> k) dispatch_keys"

definition absent :: "string list \<Rightarrow> (string \<times> json) list \<Rightarrow> bool" where
  "absent ks kvs = list_all (\<lambda>k. map_of kvs k = None) ks"

text \<open>The values of \<^verbatim>\<open>type\<close> that the last branch translates.\<close>

definition recognized_type :: "json \<Rightarrow> bool" where
  "recognized_type t =
     (t \<in> set (map JStr [''string'', ''number'', ''integer'', ''array'', ''boolean'', ''null''])
      \<or> (case t of JArr ts \<Rightarrow> True | _ \<Rightarrow> False))"

text \<open>A length bound of a string node: absent or an integer; and its text in the range.\<close>

fun int_bound :: "json option \<Rightarrow> bool" where
  "int_bound None = True"
| "int_bound (Some (JInt i)) = True"
| "int_bound (Some _) = False"

fun bound_text :: "json option \<Rightarrow> string" where
  "bound_text None = []"
| "bound_text (Some v) = py_str v"

text \<open>The array form: an opening bracket, one item, any number of items after a comma
  each, a closing bracket.\<close>

definition array_fragment :: "string \<Rightarrow> string" where
  "array_fragment F = [BS] @ ''[('' @ F @ '')(,('' @ F @ ''))*'' @ [BS] @ '']''"

text \<open>The keys that the branch chosen by the keyword \<open>k\<close> reads, for the keywords before
  \<^verbatim>\<open>type\<close>; and two nodes with the same value under each key of a list.\<close>

definition read_keys :: "string \<Rightarrow> string list" where
  "read_keys k = (if k = ''enum'' then [''enum'', ''type''] else [k])"

definition agree_on :: "string list \<Rightarrow> (string \<times> json) list \<Rightarrow> (string \<times> json) list \<Rightarrow> bool" where
  "agree_on ks kvs kvs' = list_all (\<lambda>k. map_of kvs k = map_of kvs' k) ks"

text \<open>
  The depth bound only decides whether the recursion is cut short: \<open>settled a b\<close> says
  that \<open>b\<close> is \<open>a\<close> unless \<open>a\<close> is the \<open>RecursionError\<close>.
\<close>

definition settled :: "error + 'a \<Rightarrow> error + 'a \<Rightarrow> bool" where
  "settled a b = (a \<noteq> Inl RecursionError \<longrightarrow> b = a)"

section \<open>Facts about the helpers\<close>

lemma py_contains_JObj: "py_contains k (JObj kvs) = Inr (map_of kvs k \<noteq> None)"
  by (simp add: map_of_eq_None_iff)

lemma rbind_Inr: "rbind (Inr x) f = f x"
  by (simp add: rbind_def)

lemma rbind_Inl: "rbind (Inl e) f = Inl e"
  by (simp add: rbind_def)

lemma absent_before_type:
  "absent (keys_before ''type'') kvs \<longleftrightarrow>
     map_of kvs ''properties'' = None \<and> map_of kvs ''allOf'' = None
     \<and> map_of kvs ''anyOf'' = None \<and> map_of kvs ''oneOf'' = None
     \<and> map_of kvs ''enum'' = None \<and> map_of kvs ''$ref'' = None"
  by (simp add: absent_def keys_before_def dispatch_keys_def)

subsection \<open>Leaves of the type branch\<close>

lemma string_bounds_general:
  assumes "absent (keys_before ''type'') kvs"
    and "map_of kvs ''type'' = Some (JStr ''string'')"
    and "map_of kvs ''maxLength'' \<noteq> None \<or> map_of kvs ''minLength'' \<noteq> None"
    and "int_bound (map_of kvs ''maxLength'')" and "int_bound (map_of kvs ''minLength'')"
  shows \<open>to_regex (Suc n) resolver (JObj kvs) =
     Inr (''"'' @ STRING_INNER @ ''{'' @ bound_text (map_of kvs ''minLength'') @ '',''
          @ bound_text (map_of kvs ''maxLength'') @ ''}"'')\<close>
proof -
  have c: "check_lengths (case map_of kvs ''maxLength'' of None \<Rightarrow> JStr [] | Some v \<Rightarrow> v)
             (case map_of kvs ''minLength'' of None \<Rightarrow> JStr [] | Some v \<Rightarrow> v) = Inr ()"
    using assms(4,5)
    by (cases "map_of kvs ''maxLength''" rule: int_bound.cases;
        cases "map_of kvs ''minLength''" rule: int_bound.cases)
      (simp_all add: check_lengths_def except_ValueError_pass_def rbind_def int_of_str_def strip_def)
  show ?thesis
    using assms(1,2,3) c
    by (cases "map_of kvs ''maxLength''"; cases "map_of kvs ''minLength''")
      (simp_all add: absent_before_type to_regex.simps py_contains_JObj rbind_Inr rbind_Inl
        del: py_contains.simps)
qed

lemma str_int_examples:
  "str_int 2 = ''2''" "str_int 4 = ''4''" "str_int 7 = ''7''"
  by code_simp+

lemma bounded_string_matches:
  \<open>fullmatch (''"'' @ STRING_INNER @ ''{2,4}"'') ''"ab"'' = Some True\<close>
  \<open>fullmatch (''"'' @ STRING_INNER @ ''{2,4}"'') ''"abc"'' = Some True\<close>
  \<open>fullmatch (''"'' @ STRING_INNER @ ''{2,4}"'') ''"abcd"'' = Some True\<close>
  \<open>fullmatch (''"'' @ STRING_INNER @ ''{2,4}"'') ''"a"'' = Some False\<close>
  \<open>fullmatch (''"'' @ STRING_INNER @ ''{2,4}"'') ''"abcde"'' = Some False\<close>
  by code_simp+

lemma array_items_general:
  assumes "absent (keys_before ''type'') kvs"
    and "map_of kvs ''type'' = Some (JStr ''array'')"
    and "map_of kvs ''items'' = Some items"
    and "to_regex n resolver items = Inr F"
  shows "to_regex (Suc n) resolver (JObj kvs) = Inr (array_fragment F)"
  using assms
  by (simp add: absent_before_type to_regex.simps py_contains_JObj rbind_Inr rbind_Inl
      array_fragment_def del: py_contains.simps)

lemma integer_leaf: "to_regex (Suc n) resolver (JObj [(''type'', JStr ''integer'')]) = Inr INTEGER"
  by (simp add: to_regex.simps rbind_Inr rbind_Inl)

lemma integer_array_matches:
  "fullmatch (array_fragment INTEGER) ''[1,2,3]'' = Some True"
  "fullmatch (array_fragment INTEGER) ''[1]'' = Some True"
  "fullmatch (array_fragment INTEGER) ''[]'' = Some False"
  by code_simp+

subsection \<open>A deeper bound changes no result\<close>

lemma settled_refl: "settled a a"
  by (simp add: settled_def)

lemma settled_rbind:
  "settled m m' \<Longrightarrow> (\<And>x. settled (k x) (k' x)) \<Longrightarrow> settled (rbind m k) (rbind m' k')"
  by (cases m) (auto simp: settled_def rbind_def)

lemma settled_if:
  "settled a a' \<Longrightarrow> settled b b' \<Longrightarrow> settled (if c then a else b) (if c then a' else b')"
  by simp

lemma settled_Let: "(\<And>x. settled (k x) (k' x)) \<Longrightarrow> settled (Let v k) (Let v k')"
  by simp

lemma settled_case_option:
  "settled a a' \<Longrightarrow> (\<And>x. settled (b x) (b' x)) \<Longrightarrow>
     settled (case v of None \<Rightarrow> a | Some x \<Rightarrow> b x) (case v of None \<Rightarrow> a' | Some x \<Rightarrow> b' x)"
  by (cases v) simp_all

lemma settled_case_json:
  "settled a a' \<Longrightarrow> (\<And>x. settled (b x) (b' x)) \<Longrightarrow> (\<And>x. settled (c x) (c' x)) \<Longrightarrow>
   (\<And>x. settled (d x) (d' x)) \<Longrightarrow> (\<And>x. settled (e x) (e' x)) \<Longrightarrow>
   (\<And>x. settled (g x) (g' x)) \<Longrightarrow>
     settled (case_json a b c d e g v) (case_json a' b' c' d' e' g' v)"
  by (cases v) simp_all

lemma settled_mapM:
  "(\<And>x. settled (f x) (f' x)) \<Longrightarrow> settled (mapM f xs) (mapM f' xs)"
proof (induction xs)
  case Nil
  show ?case by (simp add: settled_def)
next
  case (Cons x xs)
  have a: "settled (f x) (f' x)" and b: "settled (mapM f xs) (mapM f' xs)"
    using Cons by auto
  show ?case
    using a b by (cases "f x"; cases "mapM f xs") (auto simp: settled_def)
qed

lemma settled_properties_loop:
  "(\<And>x. settled (f x) (f' x)) \<Longrightarrow>
     settled (properties_loop f len i items regex) (properties_loop f' len i items regex)"
proof (induction items arbitrary: i regex)
  case Nil
  show ?case by (simp add: settled_def)
next
  case (Cons nv items)
  have a: "settled (f (snd nv)) (f' (snd nv))" using Cons.prems by auto
  show ?case
    using a Cons.IH [OF Cons.prems]
    by (cases "f (snd nv)") (auto simp: settled_def)
qed

lemma to_regex_step_settled:
  assumes "\<And>x. settled (to_regex n resolver x) (to_regex m resolver x)"
  shows "settled (to_regex (Suc n) resolver inst) (to_regex (Suc m) resolver inst)"
  unfolding to_regex.simps(2)
  by (intro settled_rbind settled_if settled_Let settled_case_option settled_case_json
      settled_mapM settled_properties_loop assms settled_refl)

lemma to_regex_settled: "settled (to_regex n resolver inst) (to_regex (Suc n) resolver inst)"
proof (induction n arbitrary: inst)
  case 0
  show ?case by (simp add: settled_def to_regex.simps(1))
next
  case (Suc n)
  show ?case by (rule to_regex_step_settled) (rule Suc.IH)
qed

lemma to_regex_more_fuel:
  assumes "to_regex n resolver inst \<noteq> Inl RecursionError"
  shows "to_regex (n + k) resolver inst = to_regex n resolver inst"
proof (induction k)
  case 0
  show ?case by simp
next
  case (Suc k)
  with assms to_regex_settled [of "n + k" resolver inst] show ?case
    by (simp add: settled_def)
qed

lemma to_regex_deterministic:
  assumes "to_regex n resolver inst = r" "to_regex m resolver inst = r'"
    and "r \<noteq> Inl RecursionError" "r' \<noteq> Inl RecursionError"
  shows "r = r'"
proof (cases "n \<le> m")
  case True
  then have "to_regex m resolver inst = to_regex n resolver inst"
    using to_regex_more_fuel [of n resolver inst "m - n"] assms by simp
  with assms show ?thesis by simp
next
  case False
  then have "to_regex n resolver inst = to_regex m resolver inst"
    using to_regex_more_fuel [of m resolver inst "n - m"] assms by simp
  with assms show ?thesis by simp
qed


section \<open>The claims\<close>

text \<open>
  C10. A string-typed node without \<^verbatim>\<open>minLength\<close> and \<^verbatim>\<open>maxLength\<close> whose
  \<^verbatim>\<open>pattern\<close> is the empty string does not get a fragment: the anchor test reads
  \<^verbatim>\<open>pattern[0]\<close> unguarded and the translation ends in an \<open>IndexError\<close>, at any
  depth of the recursion that reaches the node.
\<close>

theorem empty_pattern_IndexError:
  assumes "map_of kvs ''properties'' = None" "map_of kvs ''allOf'' = None"
    "map_of kvs ''anyOf'' = None" "map_of kvs ''oneOf'' = None"
    "map_of kvs ''enum'' = None" "map_of kvs ''$ref'' = None"
    "map_of kvs ''type'' = Some (JStr ''string'')"
    "map_of kvs ''maxLength'' = None" "map_of kvs ''minLength'' = None"
    "map_of kvs ''pattern'' = Some (JStr [])"
  shows "to_regex (Suc n) resolver (JObj kvs) = Inl IndexError"
  using assms
  by (simp add: to_regex.simps py_contains_JObj rbind_Inr rbind_Inl del: py_contains.simps)

theorem empty_pattern_IndexError_witness:
  "to_regex (Suc 0) (\<lambda>_. None) (JObj [(''type'', JStr ''string''), (''pattern'', JStr [])])
     = Inl IndexError"
  by (rule empty_pattern_IndexError) simp_all

text \<open>
  C6. A node that has none of \<^verbatim>\<open>properties\<close>, \<^verbatim>\<open>allOf\<close>, \<^verbatim>\<open>anyOf\<close>, \<^verbatim>\<open>oneOf\<close>,
  \<^verbatim>\<open>enum\<close>, \<^verbatim>\<open>$ref\<close> and no recognized \<^verbatim>\<open>type\<close> (the empty object, for one) is
  not translated: \<^verbatim>\<open>to_regex\<close> raises \<open>NotImplementedError\<close>, which names the node, and
  returns no fragment.
\<close>

theorem unsupported_node_NotImplementedError:
  assumes "absent (keys_before ''type'') kvs"
    and "case map_of kvs ''type'' of None \<Rightarrow> True | Some t \<Rightarrow> \<not> recognized_type t"
  shows "to_regex (Suc n) resolver (JObj kvs) = Inl (NotImplementedError (JObj kvs))"
proof (cases "map_of kvs ''type''")
  case None
  with assms(1) show ?thesis
    by (simp add: absent_before_type to_regex.simps py_contains_JObj rbind_Inr rbind_Inl
        del: py_contains.simps)
next
  case (Some t)
  with assms(2) have "\<not> recognized_type t" by simp
  then have t: "t \<noteq> JStr ''string''" "t \<noteq> JStr ''number''" "t \<noteq> JStr ''integer''"
    "t \<noteq> JStr ''array''" "t \<noteq> JStr ''boolean''" "t \<noteq> JStr ''null''" "\<And>ts. t \<noteq> JArr ts"
    by (auto simp: recognized_type_def)
  from assms(1) Some t show ?thesis
    by (cases t)
      (auto simp add: absent_before_type to_regex.simps py_contains_JObj rbind_Inr rbind_Inl
        simp del: py_contains.simps)
qed

theorem unsupported_node_NotImplementedError_witness:
  "to_regex (Suc 0) (\<lambda>_. None) (JObj []) = Inl (NotImplementedError (JObj []))"
  by (rule unsupported_node_NotImplementedError)
    (simp_all add: absent_def keys_before_def dispatch_keys_def)

text \<open>
  C4. A string-typed node with \<^verbatim>\<open>minLength\<close> or \<^verbatim>\<open>maxLength\<close> (integers, when present)
  gets the quoted inner-character body with the range built from the bounds as they
  are written, an absent bound left empty. Nothing is assumed about the order of the
  bounds: with \<^verbatim>\<open>maxLength < minLength\<close> the \<open>ValueError\<close> is caught and the fragment is
  returned all the same. For the bounds 2 and 4 the range is \<^verbatim>\<open>{2,4}\<close>, and string bodies
  of length 2, 3 and 4 match while those of length 1 and 5 do not; for the bounds 4
  and 2 the range is \<^verbatim>\<open>{4,2}\<close>.
\<close>

theorem string_length_bounds:
  assumes "absent (keys_before ''type'') kvs"
    and "map_of kvs ''type'' = Some (JStr ''string'')"
    and "map_of kvs ''maxLength'' \<noteq> None \<or> map_of kvs ''minLength'' \<noteq> None"
    and "int_bound (map_of kvs ''maxLength'')" and "int_bound (map_of kvs ''minLength'')"
  shows \<open>to_regex (Suc n) resolver (JObj kvs) =
       Inr (''"'' @ STRING_INNER @ ''{'' @ bound_text (map_of kvs ''minLength'') @ '',''
            @ bound_text (map_of kvs ''maxLength'') @ ''}"'')
     \<and> to_regex (Suc n) resolver
         (JObj [(''type'', JStr ''string''), (''minLength'', JInt 2), (''maxLength'', JInt 4)])
         = Inr (''"'' @ STRING_INNER @ ''{2,4}"'')
     \<and> fullmatch (''"'' @ STRING_INNER @ ''{2,4}"'') ''"ab"'' = Some True
     \<and> fullmatch (''"'' @ STRING_INNER @ ''{2,4}"'') ''"abc"'' = Some True
     \<and> fullmatch (''"'' @ STRING_INNER @ ''{2,4}"'') ''"abcd"'' = Some True
     \<and> fullmatch (''"'' @ STRING_INNER @ ''{2,4}"'') ''"a"'' = Some False
     \<and> fullmatch (''"'' @ STRING_INNER @ ''{2,4}"'') ''"abcde"'' = Some False
     \<and> to_regex (Suc n) resolver
         (JObj [(''type'', JStr ''string''), (''minLength'', JInt 4), (''maxLength'', JInt 2)])
         = Inr (''"'' @ STRING_INNER @ ''{4,2}"'')\<close>
proof -
  have a: \<open>to_regex (Suc n) resolver
         (JObj [(''type'', JStr ''string''), (''minLength'', JInt 2), (''maxLength'', JInt 4)])
         = Inr (''"'' @ STRING_INNER @ ''{2,4}"'')\<close>
    using string_bounds_general
      [of "[(''type'', JStr ''string''), (''minLength'', JInt 2), (''maxLength'', JInt 4)]"
        n resolver]
    by (simp add: absent_before_type str_int_examples)
  have b: \<open>to_regex (Suc n) resolver
         (JObj [(''type'', JStr ''string''), (''minLength'', JInt 4), (''maxLength'', JInt 2)])
         = Inr (''"'' @ STRING_INNER @ ''{4,2}"'')\<close>
    using string_bounds_general
      [of "[(''type'', JStr ''string''), (''minLength'', JInt 4), (''maxLength'', JInt 2)]"
        n resolver]
    by (simp add: absent_before_type str_int_examples)
  show ?thesis
    using string_bounds_general [OF assms] a b bounded_string_matches by simp
qed

theorem string_length_bounds_witness:
  \<open>to_regex (Suc 0) (\<lambda>_. None) (JObj [(''type'', JStr ''string''), (''maxLength'', JInt 7)])
     = Inr (''"'' @ STRING_INNER @ ''{,7}"'')\<close>
  using string_length_bounds [of "[(''type'', JStr ''string''), (''maxLength'', JInt 7)]" 0 "\<lambda>_. None"]
  by (simp add: absent_before_type str_int_examples)

text \<open>
  C7. An array-typed node with \<^verbatim>\<open>items\<close> translates the items once, to \<open>F\<close>, and returns
  a bracket, \<open>F\<close>, any number of \<open>F\<close> after a comma each, and a bracket. For integer
  items \<^verbatim>\<open>[1,2,3]\<close> and \<^verbatim>\<open>[1]\<close> match and \<^verbatim>\<open>[]\<close> does not.
\<close>

theorem array_items_fragment:
  assumes "absent (keys_before ''type'') kvs"
    and "map_of kvs ''type'' = Some (JStr ''array'')"
    and "map_of kvs ''items'' = Some items"
    and "to_regex n resolver items = Inr F"
  shows "to_regex (Suc n) resolver (JObj kvs) = Inr (array_fragment F)
     \<and> to_regex (Suc (Suc n)) resolver
         (JObj [(''type'', JStr ''array''), (''items'', JObj [(''type'', JStr ''integer'')])])
         = Inr (array_fragment INTEGER)
     \<and> fullmatch (array_fragment INTEGER) ''[1,2,3]'' = Some True
     \<and> fullmatch (array_fragment INTEGER) ''[1]'' = Some True
     \<and> fullmatch (array_fragment INTEGER) ''[]'' = Some False"
proof -
  have "to_regex (Suc (Suc n)) resolver
         (JObj [(''type'', JStr ''array''), (''items'', JObj [(''type'', JStr ''integer'')])])
         = Inr (array_fragment INTEGER)"
    by (rule array_items_general [OF _ _ _ integer_leaf]) (simp_all add: absent_before_type)
  then show ?thesis
    using array_items_general [OF assms] integer_array_matches by simp
qed

theorem array_items_fragment_witness:
  "to_regex (Suc (Suc 0)) (\<lambda>_. None)
     (JObj [(''type'', JStr ''array''), (''items'', JObj [(''type'', JStr ''null'')])])
     = Inr (array_fragment NULL)"
  using array_items_fragment
    [of "[(''type'', JStr ''array''), (''items'', JObj [(''type'', JStr ''null'')])]"
      "JObj [(''type'', JStr ''null'')]" "Suc 0" "\<lambda>_. None" NULL]
  by (simp add: absent_before_type to_regex.simps rbind_Inr rbind_Inl)

text \<open>
  C3. A node whose first keyword is \<^verbatim>\<open>$ref\<close>, with a reference that the resolver
  resolves to the node \<open>M\<close>, is translated as \<open>M\<close> is, by the same resolver: the call
  on the node is the call on \<open>M\<close> one level deeper, so whatever the translation of one
  of them ends in (a fragment or an exception other than the recursion limit), the
  translation of the other ends in too.
\<close>

theorem ref_translates_as_target:
  assumes "absent (keys_before ''$ref'') kvs"
    and "map_of kvs ''$ref'' = Some ref"
    and "resolver (py_str ref) = Some M"
  shows "to_regex (Suc n) resolver (JObj kvs) = to_regex n resolver M
     \<and> (r \<noteq> Inl RecursionError \<longrightarrow>
          ((\<exists>k. to_regex k resolver (JObj kvs) = r) \<longleftrightarrow> (\<exists>k. to_regex k resolver M = r)))"
proof -
  have step: "to_regex (Suc k) resolver (JObj kvs) = to_regex k resolver M" for k
    using assms
    by (simp add: absent_def keys_before_def dispatch_keys_def to_regex.simps py_contains_JObj
        rbind_Inr rbind_Inl del: py_contains.simps)
  have "(\<exists>k. to_regex k resolver (JObj kvs) = r) \<longleftrightarrow> (\<exists>k. to_regex k resolver M = r)"
    if r: "r \<noteq> Inl RecursionError"
  proof
    assume "\<exists>k. to_regex k resolver (JObj kvs) = r"
    then obtain k where k: "to_regex k resolver (JObj kvs) = r" by blast
    with r obtain k' where "k = Suc k'"
      by (cases k) (auto simp: to_regex.simps(1))
    with k step show "\<exists>k. to_regex k resolver M = r" by auto
  next
    assume "\<exists>k. to_regex k resolver M = r"
    then obtain k where "to_regex k resolver M = r" by blast
    with step [of k] show "\<exists>k. to_regex k resolver (JObj kvs) = r" by metis
  qed
  with step show ?thesis by blast
qed

theorem ref_translates_as_target_witness:
  "to_regex (Suc (Suc 0)) (\<lambda>p. if p = ''#/$defs/n'' then Some (JObj [(''type'', JStr ''null'')]) else None)
     (JObj [(''$ref'', JStr ''#/$defs/n'')])
   = to_regex (Suc 0) (\<lambda>p. if p = ''#/$defs/n'' then Some (JObj [(''type'', JStr ''null'')]) else None)
     (JObj [(''type'', JStr ''null'')])"
  using ref_translates_as_target
    [of "[(''$ref'', JStr ''#/$defs/n'')]" "JStr ''#/$defs/n''"
      "\<lambda>p. if p = ''#/$defs/n'' then Some (JObj [(''type'', JStr ''null'')]) else None"
      "JObj [(''type'', JStr ''null'')]" "Suc 0" "Inr NULL"]
  by (simp add: absent_def keys_before_def dispatch_keys_def)

text \<open>
  C8, as stated, fails: the claim has every later key ignored once a keyword is chosen,
  but the \<^verbatim>\<open>enum\<close> branch reads \<^verbatim>\<open>type\<close>, a later keyword, to decide whether the members
  are quoted. Two nodes with the same \<^verbatim>\<open>enum\<close> that differ in \<^verbatim>\<open>type\<close> only are
  translated differently.
\<close>

theorem later_key_not_ignored:
  "to_regex (Suc 0) (\<lambda>_. None) (JObj [(''enum'', JArr [JStr ''a'']), (''type'', JStr ''string'')])
   \<noteq> to_regex (Suc 0) (\<lambda>_. None) (JObj [(''enum'', JArr [JStr ''a'']), (''type'', JStr ''integer'')])"
  by (simp add: to_regex.simps rbind_Inr rbind_Inl re_escape_def re_special_def)

text \<open>
  C8, amended. The first keyword present, in the order \<^verbatim>\<open>properties\<close>, \<^verbatim>\<open>allOf\<close>,
  \<^verbatim>\<open>anyOf\<close>, \<^verbatim>\<open>oneOf\<close>, \<^verbatim>\<open>enum\<close>, \<^verbatim>\<open>$ref\<close>, \<^verbatim>\<open>type\<close>, chooses the branch. When it
  comes before \<^verbatim>\<open>type\<close>, the result depends on the node through the value of that
  keyword only, and for \<^verbatim>\<open>enum\<close> through the value of \<^verbatim>\<open>type\<close> as well: two nodes that
  agree there are translated alike, whatever else they carry. So a node with
  \<^verbatim>\<open>properties\<close> and \<^verbatim>\<open>type\<close> is translated as the node with the \<^verbatim>\<open>properties\<close> alone.
\<close>

theorem first_keyword_decides:
  assumes "k \<in> set (keys_before ''type'')"
    and "absent (keys_before k) kvs" and "absent (keys_before k) kvs'"
    and "map_of kvs k \<noteq> None"
    and "agree_on (read_keys k) kvs kvs'"
  shows "to_regex (Suc n) resolver (JObj kvs) = to_regex (Suc n) resolver (JObj kvs')
     \<and> to_regex (Suc n) resolver (JObj [(''properties'', P), (''type'', T)])
         = to_regex (Suc n) resolver (JObj [(''properties'', P)])"
proof -
  have "k = ''properties'' \<or> k = ''allOf'' \<or> k = ''anyOf'' \<or> k = ''oneOf'' \<or> k = ''enum''
      \<or> k = ''$ref''"
    using assms(1) by (simp add: keys_before_def dispatch_keys_def)
  then have a: "to_regex (Suc n) resolver (JObj kvs) = to_regex (Suc n) resolver (JObj kvs')"
    using assms(2-5)
    by (elim disjE)
      (simp_all add: absent_def keys_before_def dispatch_keys_def agree_on_def read_keys_def
        to_regex.simps py_contains_JObj rbind_Inr rbind_Inl del: py_contains.simps
        cong del: if_weak_cong)
  have b: "to_regex (Suc n) resolver (JObj [(''properties'', P), (''type'', T)])
         = to_regex (Suc n) resolver (JObj [(''properties'', P)])"
    by (simp add: to_regex.simps rbind_Inr rbind_Inl)
  from a b show ?thesis by simp
qed

theorem first_keyword_decides_witness:
  "to_regex (Suc (Suc 0)) (\<lambda>_. None)
     (JObj [(''oneOf'', JArr [JObj [(''type'', JStr ''null'')]]), (''type'', JStr ''string'')])
   = to_regex (Suc (Suc 0)) (\<lambda>_. None)
     (JObj [(''oneOf'', JArr [JObj [(''type'', JStr ''null'')]]), (''enum'', JArr [])])"
  using first_keyword_decides
    [of "''oneOf''"
      "[(''oneOf'', JArr [JObj [(''type'', JStr ''null'')]]), (''type'', JStr ''string'')]"
      "[(''oneOf'', JArr [JObj [(''type'', JStr ''null'')]]), (''enum'', JArr [])]"
      "Suc 0" "\<lambda>_. None"]
  by (simp add: absent_def keys_before_def dispatch_keys_def agree_on_def read_keys_def)

text \<open>
  C5. The claim has an \<^verbatim>\<open>enum\<close> node without \<^verbatim>\<open>type\<close> rendered through the default
  text of its members. The code reads \<^verbatim>\<open>instance["type"]\<close> unguarded, and the node
  \<^verbatim>\<open>{"enum": [1, 2]}\<close> ends in a \<open>KeyError\<close>.
\<close>

theorem enum_without_type_KeyError:
  "to_regex (Suc n) resolver (JObj [(''enum'', JArr [JInt 1, JInt 2])]) = Inl KeyError"
  by (simp add: to_regex.simps rbind_Inr rbind_Inl)

end
